theory Spec2Isabelle
  imports Main
begin

section \<open>Strings of the source language\<close>

text \<open>
  A JavaScript string is a sequence of UTF-16 code units, and every regular expression of
  \<^verbatim>\<open>src/lib/utils.js\<close> is written without the \<^verbatim>\<open>u\<close> flag, so it works code unit by
  code unit. A code unit is modelled as a natural number and a string as a list of them;
  \<open>js\<close> turns an ASCII literal into such a list.
\<close>

type_synonym jschar = nat
type_synonym jsstring = "nat list"

definition js :: "string \<Rightarrow> jsstring" where
  "js s = map of_char s"

definition c_us :: jschar where "c_us = 95"
definition c_dot :: jschar where "c_dot = 46"
definition c_hyphen :: jschar where "c_hyphen = 45"
definition c_lbrace :: jschar where "c_lbrace = 123"
definition c_rbrace :: jschar where "c_rbrace = 125"
definition c_dollar :: jschar where "c_dollar = 36"

text \<open>The class \<^verbatim>\<open>\s\<close> (and what \<^verbatim>\<open>trim\<close> removes): white space and line terminators.\<close>

definition is_space :: "jschar \<Rightarrow> bool" where
  "is_space c \<longleftrightarrow>
     (9 \<le> c \<and> c \<le> 13) \<or> c = 32 \<or> c = 160 \<or> c = 5760 \<or> (8192 \<le> c \<and> c \<le> 8202) \<or>
     c = 8232 \<or> c = 8233 \<or> c = 8239 \<or> c = 8287 \<or> c = 12288 \<or> c = 65279"

text \<open>Decimal rendering of a non-negative integer, as \<^verbatim>\<open>String(n)\<close> gives it.\<close>

fun dec :: "nat \<Rightarrow> jsstring" where
  "dec n = (if n < 10 then [48 + n] else dec (n div 10) @ [48 + n mod 10])"

declare dec.simps [simp del]

text \<open>
  \<^verbatim>\<open>s.replace(/X{k,}/g, r)\<close> for a one-character class \<open>X\<close>: every maximal run of
  at least \<open>k\<close> characters of the class becomes \<open>r\<close>, shorter runs stay.
\<close>

function replace_runs :: "nat \<Rightarrow> (jschar \<Rightarrow> bool) \<Rightarrow> jsstring \<Rightarrow> jsstring \<Rightarrow> jsstring" where
  "replace_runs k P r [] = []"
| "replace_runs k P r (c # cs) =
     (if P c
      then (if k \<le> length (takeWhile P (c # cs)) then r else takeWhile P (c # cs))
           @ replace_runs k P r (dropWhile P cs)
      else c # replace_runs k P r cs)"
  by pat_completeness auto
termination
  by (relation "measure (\<lambda>(k, P, r, s). length s)")
     (auto simp: length_dropWhile_le less_Suc_eq_le)

text \<open>
  \<^verbatim>\<open>s.replace(/^X+|X+$/g, r)\<close>: the leading run of the class, when there is one, becomes
  \<open>r\<close>; then the trailing run of what is left, when there is one, becomes \<open>r\<close>.
\<close>

definition replace_trailing :: "(jschar \<Rightarrow> bool) \<Rightarrow> jsstring \<Rightarrow> jsstring \<Rightarrow> jsstring" where
  "replace_trailing P r s =
     (let t = takeWhile P (rev s)
      in if t = [] then s else take (length s - length t) s @ r)"

definition replace_edges :: "(jschar \<Rightarrow> bool) \<Rightarrow> jsstring \<Rightarrow> jsstring \<Rightarrow> jsstring" where
  "replace_edges P r s =
     (if takeWhile P s = [] then replace_trailing P r s
      else r @ replace_trailing P r (dropWhile P s))"

section \<open>The filesystem name sanitizer\<close>

text \<open>
  The class of the first replacement of \<^verbatim>\<open>sanitizeFilename\<close>: the control characters, DEL
  and, in the order of the source, the code units of
  \<^verbatim>\<open>< > : " / \ | ? * ~ # % & { } $ ! @ ` + =\<close>.
\<close>

definition invalid_char :: "jschar \<Rightarrow> bool" where
  "invalid_char c \<longleftrightarrow>
     c \<le> 31 \<or> c = 127 \<or>
     c \<in> set [60, 62, 58, 34, 47, 92, 124, 63, 42, 126, 35, 37, 38, 123, 125, 36, 33, 64,
               96, 43, 61]"

definition replace_chain :: "jsstring \<Rightarrow> jsstring" where
  "replace_chain filename =
     replace_runs 2 (\<lambda>c. c = c_us) [c_us]
       (replace_runs 1 is_space [c_us]
         (replace_edges (\<lambda>c. c = c_dot) [c_us]
           (replace_runs 2 (\<lambda>c. c = c_dot) [c_dot]
             (map (\<lambda>c. if invalid_char c then c_us else c) filename))))"

text \<open>\<^verbatim>\<open>sanitized.match(/\.[^.]+$/)\<close>: the last dot with what follows it, when something does.\<close>

definition extension_of :: "jsstring \<Rightarrow> jsstring" where
  "extension_of s =
     (let tl = rev (takeWhile (\<lambda>c. c \<noteq> c_dot) (rev s))
      in if tl = [] \<or> length tl = length s then [] else c_dot # tl)"

text \<open>\<^verbatim>\<open>substring(0, n)\<close> with a possibly negative \<open>n\<close>, which counts as 0.\<close>

definition substring0 :: "jsstring \<Rightarrow> int \<Rightarrow> jsstring" where
  "substring0 s n = take (nat n) s"

definition limit_length :: "jsstring \<Rightarrow> jsstring" where
  "limit_length sanitized =
     (if length sanitized > 180
      then (let extension = extension_of sanitized;
                nameWithoutExtension =
                  (if extension \<noteq> []
                   then substring0 sanitized (int (length sanitized) - int (length extension))
                   else sanitized)
            in substring0 nameWithoutExtension (180 - int (length extension)) @ extension)
      else sanitized)"

definition to_upper :: "jschar \<Rightarrow> jschar" where
  "to_upper c = (if 97 \<le> c \<and> c \<le> 122 then c - 32 else c)"

text \<open>\<^verbatim>\<open>/^(CON|PRN|AUX|NUL|COM[1-9]|LPT[1-9])$/i\<close>\<close>

definition reservedNames :: "jsstring \<Rightarrow> bool" where
  "reservedNames s \<longleftrightarrow>
     (let u = map to_upper s
      in u \<in> set (map js [''CON'', ''PRN'', ''AUX'', ''NUL'']) \<or>
         (length u = 4 \<and> take 3 u \<in> set (map js [''COM'', ''LPT'']) \<and>
          49 \<le> u ! 3 \<and> u ! 3 \<le> 57))"

text \<open>
  \<^verbatim>\<open>sanitizeFilename(filename)\<close> for a string argument. \<open>now\<close> is the value
  \<^verbatim>\<open>Date.now()\<close> would return during the call.
\<close>

definition sanitizeFilename :: "nat \<Rightarrow> jsstring \<Rightarrow> jsstring" where
  "sanitizeFilename now filename =
     (if filename = [] then js ''default_filename_'' @ dec now
      else
        let sanitized = limit_length (replace_chain filename)
        in if sanitized = [] \<or> sanitized = [c_dot] \<or> sanitized = [c_dot, c_dot]
           then js ''downloaded_file_'' @ dec now
           else if reservedNames (takeWhile (\<lambda>c. c \<noteq> c_dot) sanitized)
           then c_us # sanitized
           else sanitized)"

section \<open>The naming template engine\<close>

text \<open>
  A token value is a string, a number or \<^verbatim>\<open>null\<close>/\<^verbatim>\<open>undefined\<close>. Every number the
  callers pass is a non-negative integer below \<open>10\<^sup>2\<^sup>1\<close> (a year, a unix time), and for
  these \<^verbatim>\<open>String\<close> gives the decimal digits; \<open>TNum\<close> stands for such numbers only.
\<close>

datatype tokval = TStr jsstring | TNum nat | TNull

text \<open>
  \<^verbatim>\<open>String(v === null || v === undefined ? '' : v).replace(/[<>:"\/\\|?*]/g, '_')\<close>
\<close>

definition path_unsafe :: "jschar \<Rightarrow> bool" where
  "path_unsafe c \<longleftrightarrow> c \<in> set [60, 62, 58, 34, 47, 92, 124, 63, 42]"

definition tokenValue :: "tokval \<Rightarrow> jsstring" where
  "tokenValue v =
     map (\<lambda>c. if path_unsafe c then c_us else c)
       (case v of TStr s \<Rightarrow> s | TNum n \<Rightarrow> dec n | TNull \<Rightarrow> [])"

text \<open>
  The replacement argument of \<^verbatim>\<open>String.prototype.replace\<close> is a template: for a pattern
  without capture groups, \<^verbatim>\<open>$$\<close> stands for a dollar sign, \<^verbatim>\<open>$&\<close> for the match,
  \<^verbatim>\<open>$`\<close> and \<^verbatim>\<open>$'\<close> for the text before and after the match; any other dollar sign
  stands for itself.
\<close>

fun get_substitution :: "jsstring \<Rightarrow> jsstring \<Rightarrow> jsstring \<Rightarrow> jsstring \<Rightarrow> jsstring" where
  "get_substitution m b a (c # d # r) =
     (if c = c_dollar \<and> d = c_dollar then c_dollar # get_substitution m b a r
      else if c = c_dollar \<and> d = 38 then m @ get_substitution m b a r
      else if c = c_dollar \<and> d = 96 then b @ get_substitution m b a r
      else if c = c_dollar \<and> d = 39 then a @ get_substitution m b a r
      else c # get_substitution m b a (d # r))"
| "get_substitution m b a r = r"

text \<open>
  \<^verbatim>\<open>result.replace(new RegExp(`{${token}}`, 'g'), tokenValue)\<close>, for the keys that the
  regular expression matches literally: the key is compiled unescaped, so this is the
  behaviour of the source only for a key made of letters, digits, \<^verbatim>\<open>_\<close> and \<^verbatim>\<open>-\<close>
  that is not a number (\<open>plain_key\<close> below), as every key of the callers is. For other
  keys the source may match other text or raise a \<^verbatim>\<open>SyntaxError\<close>; the statements about
  arbitrary mappings below are restricted to plain keys. \<open>pre\<close> is the part of the subject
  already scanned.
\<close>

definition placeholder :: "jsstring \<Rightarrow> jsstring" where
  "placeholder token = c_lbrace # token @ [c_rbrace]"

function replace_token :: "jsstring \<Rightarrow> jsstring \<Rightarrow> jsstring \<Rightarrow> jsstring \<Rightarrow> jsstring" where
  "replace_token token v pre [] = []"
| "replace_token token v pre (c # cs) =
     (if take (length (placeholder token)) (c # cs) = placeholder token
      then get_substitution (placeholder token) pre (drop (length (placeholder token)) (c # cs)) v
           @ replace_token token v (pre @ placeholder token)
               (drop (length (placeholder token)) (c # cs))
      else c # replace_token token v (pre @ [c]) cs)"
  by pat_completeness auto
termination
  by (relation "measure (\<lambda>(token, v, pre, s). length s)") (auto simp: placeholder_def)


fun apply_tokens :: "(jsstring \<times> tokval) list \<Rightarrow> jsstring \<Rightarrow> jsstring" where
  "apply_tokens [] result = result"
| "apply_tokens ((token, v) # data) result =
     apply_tokens data (replace_token token (tokenValue v) [] result)"

text \<open>
  \<^verbatim>\<open>result.replace(/{[^}]+}/g, '')\<close>: an opening brace, then the longest run of characters
  other than the closing brace, which must not be empty and must be followed by one.
\<close>

function remove_placeholders :: "jsstring \<Rightarrow> jsstring" where
  "remove_placeholders [] = []"
| "remove_placeholders (c # cs) =
     (if c = c_lbrace \<and> takeWhile (\<lambda>d. d \<noteq> c_rbrace) cs \<noteq> [] \<and>
         dropWhile (\<lambda>d. d \<noteq> c_rbrace) cs \<noteq> []
      then remove_placeholders (tl (dropWhile (\<lambda>d. d \<noteq> c_rbrace) cs))
      else c # remove_placeholders cs)"
  by pat_completeness auto
termination
proof (relation "measure length", goal_cases)
  case 1
  show ?case by simp
next
  case (2 c cs)
  have "length (tl (dropWhile (\<lambda>d. d \<noteq> c_rbrace) cs)) \<le> length cs"
    using length_dropWhile_le [of "\<lambda>d. d \<noteq> c_rbrace" cs] by simp
  then show ?case by simp
next
  case 3
  show ?case by simp
qed

definition trim :: "jsstring \<Rightarrow> jsstring" where
  "trim s = rev (dropWhile is_space (rev (dropWhile is_space s)))"

definition is_sep :: "jschar \<Rightarrow> bool" where
  "is_sep c \<longleftrightarrow> c = c_hyphen \<or> c = c_us"

definition tidy :: "jsstring \<Rightarrow> jsstring" where
  "tidy result =
     replace_edges is_sep []
       (replace_runs 2 is_sep [c_us]
         (replace_runs 2 (\<lambda>c. c = c_hyphen) [c_hyphen]
           (replace_runs 2 (\<lambda>c. c = c_us) [c_us]
             (trim (remove_placeholders result)))))"

text \<open>
  \<^verbatim>\<open>applyTokenToFilename(rule, data)\<close>; \<open>data\<close> lists the properties of the object in the
  order \<^verbatim>\<open>for ... in\<close> visits them, and \<open>now\<close> is the value of \<^verbatim>\<open>Date.now()\<close>.
\<close>

definition applyTokenToFilename :: "nat \<Rightarrow> jsstring \<Rightarrow> (jsstring \<times> tokval) list \<Rightarrow> jsstring" where
  "applyTokenToFilename now rule data =
     (let result = tidy (apply_tokens data rule)
      in if result = [] then js ''default_name_'' @ dec now else result)"

section \<open>The download engine: data\<close>

text \<open>
  The service worker of \<^verbatim>\<open>src/unnamed/part_003\<close> keeps its state in module-level
  variables and runs as a sequence of callbacks, each of which runs to completion. The
  model has one record for the variables, for the two collaborators the claims observe
  (the stored options and the messages sent to the popup) and for the calls suspended at
  an \<^verbatim>\<open>await\<close>, and one function per callback.
\<close>

record options =
  folderNameRule :: jsstring
  fileNameRule :: jsstring
  fileNameIndexPadding :: nat
  skipDownloaded :: bool
  concurrentDownloads :: nat
  delayBetweenDownloads :: nat

definition defaultOptions :: options where
  "defaultOptions =
     \<lparr>folderNameRule = js ''{album_name}'', fileNameRule = js ''{index}_{original_name}'',
      fileNameIndexPadding = 3, skipDownloaded = True, concurrentDownloads = 3,
      delayBetweenDownloads = 500\<rparr>"

text \<open>A photo as the callers pass it; \<^verbatim>\<open>id\<close> and \<^verbatim>\<open>originalName\<close> may be missing.\<close>

record photo =
  photo_id :: "jsstring option"
  photo_url :: jsstring
  photo_originalName :: "jsstring option"

text \<open>
  What the methods of the \<^verbatim>\<open>Date\<close> object of line 160 return. (A year or a time of a
  \<^verbatim>\<open>Date\<close> is far below \<open>10\<^sup>2\<^sup>1\<close>, so its string form is the decimal one.)
\<close>

record jsdate =
  getFullYear :: nat
  getMonth :: nat
  getDate :: nat
  getHours :: nat
  getMinutes :: nat
  getSeconds :: nat
  getTime :: nat

text \<open>
  An entry of \<^verbatim>\<open>downloadQueue\<close> (lines 182 to 194). The formatted dates and times it
  also carries are functions of \<open>item_date\<close>.
\<close>

record item =
  item_url :: jsstring
  item_id :: "jsstring option"
  item_originalName :: jsstring
  item_albumName :: jsstring
  item_baseFolderName :: jsstring
  item_index :: nat
  item_tabId :: nat
  item_options :: options
  item_date :: jsdate

text \<open>The messages sent to the popup by \<^verbatim>\<open>notifyPopup\<close>.\<close>

datatype event =
    DownloadProgress nat nat jsstring
  | DownloadComplete jsstring jsstring
  | DownloadError jsstring
  | DownloadCancelled jsstring

text \<open>What \<^verbatim>\<open>getPhotoUrlsForAlbum\<close>, a collaborator outside the engine, answers.\<close>

datatype album_result =
    AlbumThrows jsstring
  | AlbumNone
  | AlbumInfo jsstring "photo list"

text \<open>
  The requests of the popup. A tab id is only ever tested for truth, so it is a number and
  0 stands for every falsy value. The last argument of \<open>DownloadSinglePhoto\<close> is what
  \<^verbatim>\<open>getOriginalNameFromUrl(photoUrl)\<close> returns.
\<close>

datatype request =
    DownloadAlbum jsstring nat "jsstring option"
  | DownloadPhotosFromPost "photo list" "jsstring option" nat
  | DownloadSinglePhoto jsstring "jsstring option" nat jsstring
  | CancelDownload

text \<open>An exception, with its message.\<close>

datatype error = ReferenceError jsstring

text \<open>
  The variables of the worker declared in lines 14 to 21, then \<open>storedOptions\<close>, the key
  \<^verbatim>\<open>options\<close> of \<^verbatim>\<open>chrome.storage.local\<close>, and \<open>events\<close>, the messages sent to the
  popup so far. The last three fields hold the arguments of the calls of
  \<^verbatim>\<open>processPhotosDownload\<close> and \<^verbatim>\<open>processAlbumDownload\<close> that are suspended at an
  \<^verbatim>\<open>await\<close>.
\<close>

record state =
  downloadedFileIds :: "jsstring option set"
  downloadQueue :: "item list"
  activeDownloads :: int
  currentCollectionName :: jsstring
  currentTabId :: nat
  isCancelled :: bool
  totalPhotosForCurrentJob :: nat
  processedPhotosForCurrentJob :: nat
  storedOptions :: options
  events :: "event list"
  awaitingOptions :: "(photo list \<times> jsstring \<times> nat) list"
  albumAwaitingOptions :: "(jsstring \<times> jsstring option \<times> nat) list"
  albumAwaitingInfo :: "(jsstring \<times> jsstring option \<times> nat \<times> options) list"

text \<open>The worker after start-up, with the ledger loaded from storage (lines 24 to 29).\<close>

definition init :: "jsstring option set \<Rightarrow> options \<Rightarrow> state" where
  "init ids opts =
     \<lparr>downloadedFileIds = ids, downloadQueue = [], activeDownloads = 0,
      currentCollectionName = [], currentTabId = 0, isCancelled = False,
      totalPhotosForCurrentJob = 0, processedPhotosForCurrentJob = 0,
      storedOptions = opts, events = [],
      awaitingOptions = [], albumAwaitingOptions = [], albumAwaitingInfo = []\<rparr>"

section \<open>The download engine: naming of the folder\<close>

definition padStart :: "nat \<Rightarrow> jschar \<Rightarrow> jsstring \<Rightarrow> jsstring" where
  "padStart n c s = replicate (n - length s) c @ s"

definition pad2 :: "nat \<Rightarrow> jsstring" where
  "pad2 n = padStart 2 48 (dec n)"

definition date_YMD :: "jsdate \<Rightarrow> jsstring" where
  "date_YMD d = dec (getFullYear d) @ js ''-'' @ pad2 (getMonth d + 1) @ js ''-'' @ pad2 (getDate d)"

definition date_MDY :: "jsdate \<Rightarrow> jsstring" where
  "date_MDY d = pad2 (getMonth d + 1) @ js ''-'' @ pad2 (getDate d) @ js ''-'' @ dec (getFullYear d)"

definition date_DMY :: "jsdate \<Rightarrow> jsstring" where
  "date_DMY d = pad2 (getDate d) @ js ''-'' @ pad2 (getMonth d + 1) @ js ''-'' @ dec (getFullYear d)"

text \<open>\<^verbatim>\<open>x || d\<close> for a string \<open>x\<close> that may be missing: missing and empty are falsy.\<close>

definition or_else :: "jsstring option \<Rightarrow> jsstring \<Rightarrow> jsstring" where
  "or_else x d = (case x of None \<Rightarrow> d | Some s \<Rightarrow> if s = [] then d else s)"

definition baseFolderName :: "nat \<Rightarrow> options \<Rightarrow> jsstring \<Rightarrow> jsdate \<Rightarrow> jsstring" where
  "baseFolderName now opts collectionName d =
     applyTokenToFilename now (folderNameRule opts)
       [(js ''album_name'', TStr collectionName),
        (js ''owner_name'', TStr (js ''FacebookUser'')),
        (js ''date_YYYY-MM-DD'', TStr (date_YMD d)),
        (js ''date_MM-DD-YYYY'', TStr (date_MDY d)),
        (js ''date_DD-MM-YYYY'', TStr (date_DMY d)),
        (js ''timestamp_unix'', TNum (getTime d div 1000)),
        (js ''year'', TNum (getFullYear d)),
        (js ''month'', TStr (pad2 (getMonth d + 1))),
        (js ''day'', TStr (pad2 (getDate d)))]"

text \<open>The entry made of the photo at position \<open>index\<close> (counted from 0) of the list.\<close>

definition queue_item ::
  "nat \<Rightarrow> options \<Rightarrow> jsstring \<Rightarrow> nat \<Rightarrow> jsdate \<Rightarrow> jsstring \<Rightarrow> nat \<Rightarrow> photo \<Rightarrow> item" where
  "queue_item now opts collectionName tabId d base index p =
     \<lparr>item_url = photo_url p, item_id = photo_id p,
      item_originalName =
        or_else (photo_originalName p)
          (or_else (photo_id p) (js ''photo_'' @ dec index) @ js ''.jpg''),
      item_albumName = collectionName,
      item_baseFolderName = sanitizeFilename now base,
      item_index = index + 1, item_tabId = tabId, item_options = opts, item_date = d\<rparr>"

section \<open>The download engine: callbacks\<close>

definition notifyPopup :: "event \<Rightarrow> state \<Rightarrow> state" where
  "notifyPopup ev s = (if currentTabId s \<noteq> 0 then s\<lparr>events := events s @ [ev]\<rparr> else s)"

text \<open>
  \<^verbatim>\<open>startProcessingQueue\<close> (lines 200 to 245). The file has \<^verbatim>\<open>import\<close> declarations, so
  it is a module and its code is strict; it declares no variable \<^verbatim>\<open>isDownloading\<close>.
  Each of the three branches of the function starts by assigning to that name (lines 203,
  209 and 217, after at most a \<^verbatim>\<open>console.log\<close>), which in strict code raises a
  \<^verbatim>\<open>ReferenceError\<close>. So the function changes nothing and raises on every path. What
  follows the assignment in each branch never runs: clearing the queue (lines 204 and 205),
  the completed notification (line 212), and the request for the options with its
  \<^verbatim>\<open>then\<close> callback (lines 218 to 244), which holds the dispatch loop and the
  \<^verbatim>\<open>finally\<close> handler and is the only caller of \<^verbatim>\<open>downloadPhoto\<close>. Those parts are
  therefore no part of the model.
\<close>

definition undeclared :: error where
  "undeclared = ReferenceError (js ''isDownloading is not defined'')"

definition startProcessingQueue :: "state \<Rightarrow> error + state" where
  "startProcessingQueue s =
     (if isCancelled s then Inl undeclared
      else if downloadQueue s = [] \<and> activeDownloads s = 0 then Inl undeclared
      else Inl undeclared)"

text \<open>
  \<^verbatim>\<open>processPhotosDownload\<close> from the point where it has its options, read by the call
  itself or handed over by \<^verbatim>\<open>processAlbumDownload\<close>. The result is the state it leaves
  and the exception it ends with, if any. \<open>now\<close> is the value of \<^verbatim>\<open>Date.now()\<close>.
\<close>

definition processPhotosDownload_body ::
  "photo list \<Rightarrow> jsstring \<Rightarrow> nat \<Rightarrow> options \<Rightarrow> jsdate \<Rightarrow> nat \<Rightarrow> state \<Rightarrow> state \<times> error option" where
  "processPhotosDownload_body photosArray collectionName tabId opts d now s =
     (let s1 = notifyPopup (DownloadProgress 0 (length photosArray) collectionName)
                 (s\<lparr>totalPhotosForCurrentJob := length photosArray,
                    processedPhotosForCurrentJob := 0\<rparr>);
          photosToQueue =
            (if skipDownloaded opts
             then filter (\<lambda>p. photo_id p \<notin> downloadedFileIds s1) photosArray
             else photosArray)
      in if photosToQueue = []
         then (notifyPopup (DownloadComplete collectionName
                 (js ''All photos already downloaded or collection is empty.'')) s1, None)
         else
           let s2 = s1\<lparr>totalPhotosForCurrentJob := length photosToQueue\<rparr>
           in if totalPhotosForCurrentJob s2 = 0
              then (notifyPopup (DownloadComplete collectionName
                      (js ''All photos already downloaded.'')) s2, None)
              else
                let s3 = notifyPopup (DownloadProgress 0 (totalPhotosForCurrentJob s2)
                                        collectionName) s2;
                    base = baseFolderName now opts collectionName d;
                    s4 = s3\<lparr>downloadQueue :=
                           map (\<lambda>(index, p). queue_item now opts collectionName tabId d base index p)
                             (enumerate 0 photosToQueue)\<rparr>
                in case startProcessingQueue s4 of
                     Inl e \<Rightarrow> (s4, Some e)
                   | Inr s5 \<Rightarrow> (s5, None))"

text \<open>A call of \<^verbatim>\<open>processPhotosDownload\<close> without options suspends to read them.\<close>

definition processPhotosDownload :: "photo list \<Rightarrow> jsstring \<Rightarrow> nat \<Rightarrow> state \<Rightarrow> state" where
  "processPhotosDownload photosArray collectionName tabId s =
     (if isCancelled s then s
      else s\<lparr>awaitingOptions := awaitingOptions s @ [(photosArray, collectionName, tabId)]\<rparr>)"

text \<open>
  The listener of \<^verbatim>\<open>chrome.runtime.onMessage\<close>. \<open>now\<close> is the value of \<^verbatim>\<open>Date.now()\<close>, a
  number of milliseconds far below \<open>10\<^sup>2\<^sup>1\<close>, so that its string form is \<open>dec now\<close>.
\<close>

fun onMessage :: "request \<Rightarrow> nat \<Rightarrow> state \<Rightarrow> state" where
  "onMessage (DownloadAlbum albumId tabId nameFromPopup) now s =
     (let s1 = s\<lparr>currentTabId := tabId, isCancelled := False,
                  currentCollectionName := or_else nameFromPopup (js ''album_'' @ albumId)\<rparr>
      in s1\<lparr>albumAwaitingOptions := albumAwaitingOptions s1 @ [(albumId, nameFromPopup, tabId)]\<rparr>)"
| "onMessage (DownloadPhotosFromPost photoIds postId tabId) now s =
     (let s1 = s\<lparr>currentTabId := tabId, isCancelled := False,
                  currentCollectionName := js ''post_'' @ or_else postId (dec now)\<rparr>
      in processPhotosDownload photoIds (currentCollectionName s1) tabId s1)"
| "onMessage (DownloadSinglePhoto photoUrl photoId tabId originalName) now s =
     (let s1 = s\<lparr>currentTabId := tabId, isCancelled := False,
                  currentCollectionName := js ''photo_'' @ or_else photoId (dec now)\<rparr>;
          photoObject = \<lparr>photo_id = photoId, photo_url = photoUrl,
                          photo_originalName = Some originalName\<rparr>
      in processPhotosDownload [photoObject] (currentCollectionName s1) tabId s1)"
| "onMessage CancelDownload now s =
     notifyPopup (DownloadCancelled (currentCollectionName s))
       (s\<lparr>isCancelled := True, downloadQueue := []\<rparr>)"

text \<open>
  The \<^verbatim>\<open>catch\<close> handler the listener attaches to a call of \<^verbatim>\<open>processPhotosDownload\<close>
  (lines 65 to 69 and 80 to 84): an exception becomes an error notification.
\<close>

fun request_settled :: "state \<times> error option \<Rightarrow> state" where
  "request_settled (s, None) = s"
| "request_settled (s, Some (ReferenceError msg)) = notifyPopup (DownloadError msg) s"

text \<open>The options arrive for the \<open>k\<close>-th suspended call of \<^verbatim>\<open>processPhotosDownload\<close>.\<close>

definition optionsRead :: "nat \<Rightarrow> jsdate \<Rightarrow> nat \<Rightarrow> state \<Rightarrow> state" where
  "optionsRead k d now s =
     (if k < length (awaitingOptions s)
      then (let (photosArray, collectionName, tabId) = awaitingOptions s ! k
            in request_settled
                 (processPhotosDownload_body photosArray collectionName tabId (storedOptions s) d now
                    (s\<lparr>awaitingOptions :=
                          take k (awaitingOptions s) @ drop (Suc k) (awaitingOptions s)\<rparr>)))
      else s)"

text \<open>
  \<^verbatim>\<open>processAlbumDownload\<close>: after its options arrive it resets the counters and asks for
  the album; when the answer arrives it hands the photos and its options to
  \<^verbatim>\<open>processPhotosDownload\<close>, whose exception its own \<^verbatim>\<open>catch\<close> clause reports (lines 122
  to 126).
\<close>

definition albumOptionsRead :: "nat \<Rightarrow> state \<Rightarrow> state" where
  "albumOptionsRead k s =
     (if k < length (albumAwaitingOptions s)
      then (let (albumId, nameFromPopup, tabId) = albumAwaitingOptions s ! k
            in s\<lparr>albumAwaitingOptions :=
                    take k (albumAwaitingOptions s) @ drop (Suc k) (albumAwaitingOptions s),
                  totalPhotosForCurrentJob := 0, processedPhotosForCurrentJob := 0,
                  albumAwaitingInfo :=
                    albumAwaitingInfo s @ [(albumId, nameFromPopup, tabId, storedOptions s)]\<rparr>)
      else s)"

fun album_caught :: "state \<times> error option \<Rightarrow> state" where
  "album_caught (s, None) = s"
| "album_caught (s, Some (ReferenceError msg)) =
     (if isCancelled s then s
      else notifyPopup (DownloadError (js ''Failed to fetch album: '' @ msg)) s)"

definition albumInfoArrives :: "nat \<Rightarrow> album_result \<Rightarrow> jsdate \<Rightarrow> nat \<Rightarrow> state \<Rightarrow> state" where
  "albumInfoArrives k res d now s =
     (if k < length (albumAwaitingInfo s)
      then (let (albumId, nameFromPopup, tabId, opts) = albumAwaitingInfo s ! k;
                s1 = s\<lparr>albumAwaitingInfo :=
                         take k (albumAwaitingInfo s) @ drop (Suc k) (albumAwaitingInfo s)\<rparr>
            in case res of
                 AlbumThrows msg \<Rightarrow>
                   if isCancelled s1 then s1
                   else notifyPopup (DownloadError (js ''Failed to fetch album: '' @ msg)) s1
               | AlbumNone \<Rightarrow>
                   if isCancelled s1 then s1
                   else notifyPopup (DownloadError
                          (js ''No photos found in the album or unable to retrieve album details.'')) s1
               | AlbumInfo albumName photos \<Rightarrow>
                   if isCancelled s1 then s1
                   else if photos = []
                   then notifyPopup (DownloadError
                          (js ''No photos found in the album or unable to retrieve album details.'')) s1
                   else album_caught
                          (processPhotosDownload_body photos albumName tabId opts d now
                             (s1\<lparr>currentCollectionName := albumName\<rparr>)))
      else s)"

text \<open>
  One callback of the worker, or one write of the options page to storage. A storage read
  is taken to complete when its callback runs.
\<close>

datatype action =
    Message request nat
  | OptionsRead nat jsdate nat
  | AlbumOptionsRead nat
  | AlbumInfoArrives nat album_result jsdate nat
  | SaveOptions options

fun step :: "state \<Rightarrow> action \<Rightarrow> state" where
  "step s (Message req now) = onMessage req now s"
| "step s (OptionsRead k d now) = optionsRead k d now s"
| "step s (AlbumOptionsRead k) = albumOptionsRead k s"
| "step s (AlbumInfoArrives k res d now) = albumInfoArrives k res d now s"
| "step s (SaveOptions opts) = s\<lparr>storedOptions := opts\<rparr>"

definition run :: "state \<Rightarrow> action list \<Rightarrow> state" where
  "run s as = foldl step s as"

section \<open>Runs of the engine\<close>

fun is_Message :: "action \<Rightarrow> bool" where
  "is_Message (Message req now) = True"
| "is_Message a = False"

text \<open>A message that requests a job.\<close>

fun is_job_request :: "action \<Rightarrow> bool" where
  "is_job_request (Message CancelDownload now) = False"
| "is_job_request (Message req now) = True"
| "is_job_request a = False"

text \<open>The tab a request names, and whether it asks for an album.\<close>

fun tab_of :: "request \<Rightarrow> nat" where
  "tab_of (DownloadAlbum albumId tabId nameFromPopup) = tabId"
| "tab_of (DownloadPhotosFromPost photoIds postId tabId) = tabId"
| "tab_of (DownloadSinglePhoto photoUrl photoId tabId originalName) = tabId"
| "tab_of CancelDownload = 0"

fun is_album :: "request \<Rightarrow> bool" where
  "is_album (DownloadAlbum albumId tabId nameFromPopup) = True"
| "is_album req = False"

text \<open>An action that reads the options snapshot of a job.\<close>

fun reads_snapshot :: "action \<Rightarrow> bool" where
  "reads_snapshot (OptionsRead k d now) = True"
| "reads_snapshot (AlbumOptionsRead k) = True"
| "reads_snapshot a = False"

fun is_SaveOptions :: "action \<Rightarrow> bool" where
  "is_SaveOptions (SaveOptions opts) = True"
| "is_SaveOptions a = False"

text \<open>
  The terminal events. Every error notification the worker can send is a top-level one
  (lines 54, 68, 83, 115 and 125); the per-item ones belong to \<^verbatim>\<open>downloadPhoto\<close>.
\<close>

fun is_terminal :: "event \<Rightarrow> bool" where
  "is_terminal (DownloadProgress m n name) = False"
| "is_terminal ev = True"

text \<open>The number of calls suspended at an \<^verbatim>\<open>await\<close>.\<close>

definition pending :: "state \<Rightarrow> nat" where
  "pending s =
     length (awaitingOptions s) + length (albumAwaitingOptions s) + length (albumAwaitingInfo s)"

section \<open>Scenarios\<close>

definition photo_a :: photo where
  "photo_a = \<lparr>photo_id = Some (js ''101''), photo_url = js ''https://x.test/a.jpg'',
               photo_originalName = Some (js ''a.jpg'')\<rparr>"

definition photo_b :: photo where
  "photo_b = \<lparr>photo_id = Some (js ''102''), photo_url = js ''https://x.test/b.jpg'',
               photo_originalName = Some (js ''b.jpg'')\<rparr>"

definition photo_c :: photo where
  "photo_c = \<lparr>photo_id = Some (js ''103''), photo_url = js ''https://x.test/c.jpg'',
               photo_originalName = Some (js ''c.jpg'')\<rparr>"

definition noon :: jsdate where
  "noon = \<lparr>getFullYear = 2024, getMonth = 4, getDate = 17, getHours = 12, getMinutes = 0,
            getSeconds = 9, getTime = 1715947209000\<rparr>"

text \<open>A fresh worker with an empty ledger and the default options.\<close>

definition fresh :: state where
  "fresh = init {} defaultOptions"

text \<open>A fresh worker whose ledger holds the id of \<open>photo_a\<close>.\<close>

definition fresh_with_a :: state where
  "fresh_with_a = init {Some (js ''101'')} defaultOptions"

text \<open>A job is requested for the photos of post 42 from tab 7, and its options arrive.\<close>

definition post_job :: "photo list \<Rightarrow> action list" where
  "post_job photos =
     [Message (DownloadPhotosFromPost photos (Some (js ''42'')) 7) 0, OptionsRead 0 noon 0]"

text \<open>The same, with a cancel request arriving while the options are being read.\<close>

definition post_job_cancelled :: "photo list \<Rightarrow> action list" where
  "post_job_cancelled photos =
     [Message (DownloadPhotosFromPost photos (Some (js ''42'')) 7) 0, Message CancelDownload 0,
      OptionsRead 0 noon 0]"

text \<open>
  A job for the single photo 101 is requested from tab 7 and cancelled while its options
  are being read.
\<close>

definition single_job_cancelled :: "action list" where
  "single_job_cancelled =
     [Message (DownloadSinglePhoto (js ''https://x.test/a.jpg'') (Some (js ''101'')) 7 (js ''a.jpg'')) 0,
      Message CancelDownload 0, OptionsRead 0 noon 0]"

text \<open>An album job is requested from tab 7 and its options arrive.\<close>

definition album_job_started :: "action list" where
  "album_job_started = [Message (DownloadAlbum (js ''9'') 7 (Some (js ''Trip''))) 0, AlbumOptionsRead 0]"

definition renamed :: options where
  "renamed = defaultOptions\<lparr>folderNameRule := js ''{year}'', skipDownloaded := False,
               concurrentDownloads := 1, delayBetweenDownloads := 0\<rparr>"

section \<open>Auxiliary definitions for the naming functions\<close>

text \<open>
  A key that \<^verbatim>\<open>new RegExp(`{${token}}`, 'g')\<close> matches literally: made of letters,
  digits, \<^verbatim>\<open>_\<close> and \<^verbatim>\<open>-\<close>, not empty and not made of digits alone (which would make
  the braces a quantifier). A number among the values is below \<open>10\<^sup>2\<^sup>1\<close>, where its string
  form is the decimal one.
\<close>

definition is_digit :: "jschar \<Rightarrow> bool" where
  "is_digit c \<longleftrightarrow> 48 \<le> c \<and> c \<le> 57"

definition is_word_char :: "jschar \<Rightarrow> bool" where
  "is_word_char c \<longleftrightarrow>
     is_digit c \<or> (65 \<le> c \<and> c \<le> 90) \<or> (97 \<le> c \<and> c \<le> 122) \<or> c = c_us \<or> c = c_hyphen"

definition plain_key :: "jsstring \<Rightarrow> bool" where
  "plain_key k \<longleftrightarrow> k \<noteq> [] \<and> list_all is_word_char k \<and> \<not> list_all is_digit k"

fun plain_value :: "tokval \<Rightarrow> bool" where
  "plain_value (TNum n) = (n < 10 ^ 21)"
| "plain_value v = True"

definition plain_data :: "(jsstring \<times> tokval) list \<Rightarrow> bool" where
  "plain_data data = list_all (\<lambda>(token, v). plain_key token \<and> plain_value v) data"

text \<open>Whether \<open>pat\<close> occurs in \<open>s\<close> as a contiguous substring.\<close>

fun occurs_in :: "jsstring \<Rightarrow> jsstring \<Rightarrow> bool" where
  "occurs_in pat [] = (pat = [])"
| "occurs_in pat (c # cs) = (take (length pat) (c # cs) = pat \<or> occurs_in pat cs)"

text \<open>A name of 181 characters: 175 times \<^verbatim>\<open>a\<close>, then \<^verbatim>\<open>.b.jpg\<close>.\<close>

definition long_name :: jsstring where
  "long_name = replicate 175 97 @ js ''.b.jpg''"

section \<open>Evaluation of the naming functions\<close>

lemmas name_eval = js_def c_us_def c_dot_def c_hyphen_def c_lbrace_def c_rbrace_def c_dollar_def
  is_space_def replace_trailing_def replace_edges_def invalid_char_def replace_chain_def
  extension_of_def substring0_def limit_length_def to_upper_def reservedNames_def
  path_unsafe_def tokenValue_def placeholder_def trim_def is_sep_def tidy_def Let_def

lemma dec_small: "n < 10 \<Longrightarrow> dec n = [48 + n]"
  by (simp add: dec.simps)

lemma dec_big: "\<not> n < 10 \<Longrightarrow> dec n = dec (n div 10) @ [48 + n mod 10]"
  by (subst dec.simps) simp

section \<open>Scenarios of the naming functions\<close>

text \<open>
  Claim C10. Rendering the folder template \<^verbatim>\<open>{album_name}\<close> with the token
  \<^verbatim>\<open>album_name = "My Trip!"\<close> and sanitizing the result gives the folder name
  \<^verbatim>\<open>My_Trip_\<close>, whatever the clock shows during the two calls.
\<close>

theorem folder_My_Trip:
  "sanitizeFilename t
     (applyTokenToFilename t' (js ''{album_name}'') [(js ''album_name'', TStr (js ''My Trip!''))])
   = js ''My_Trip_''"
  by (simp add: name_eval sanitizeFilename_def applyTokenToFilename_def)

section \<open>The sanitizer and the clock\<close>

lemma replace_runs_nonempty: "s \<noteq> [] \<Longrightarrow> r \<noteq> [] \<Longrightarrow> replace_runs k P r s \<noteq> []"
  by (cases s) auto

lemma replace_edges_nonempty: "s \<noteq> [] \<Longrightarrow> r \<noteq> [] \<Longrightarrow> replace_edges P r s \<noteq> []"
  by (auto simp: replace_edges_def replace_trailing_def Let_def)

lemma replace_runs_hd:
  assumes "s \<noteq> []" "\<not> Q (hd s)" "r \<noteq> []" "\<not> Q (hd r)"
  shows "\<not> Q (hd (replace_runs k P r s))"
  using assms by (cases s) (auto simp: hd_append)

lemma replace_trailing_hd:
  assumes "s \<noteq> []" "\<not> P (hd s)" "r \<noteq> []" "\<not> P (hd r)"
  shows "\<not> P (hd (replace_trailing P r s))"
  using assms by (cases s) (auto simp: replace_trailing_def Let_def hd_append)

lemma replace_edges_hd:
  assumes "s \<noteq> []" "r \<noteq> []" "\<not> P (hd r)"
  shows "\<not> P (hd (replace_edges P r s))"
proof (cases "takeWhile P s = []")
  case True
  with assms(1) have "\<not> P (hd s)" by (cases s) (auto split: if_splits)
  with True assms show ?thesis by (simp add: replace_edges_def replace_trailing_hd)
next
  case False
  with assms show ?thesis by (simp add: replace_edges_def)
qed

lemma replace_chain_nonempty: "filename \<noteq> [] \<Longrightarrow> replace_chain filename \<noteq> []"
  by (simp add: replace_chain_def replace_runs_nonempty replace_edges_nonempty)

text \<open>After the five replacements a name does not start with a dot.\<close>

lemma replace_chain_hd:
  assumes "filename \<noteq> []"
  shows "hd (replace_chain filename) \<noteq> c_dot"
proof -
  let ?dot = "\<lambda>c. c = c_dot"
  let ?a = "replace_runs 2 ?dot [c_dot] (map (\<lambda>c. if invalid_char c then c_us else c) filename)"
  let ?b = "replace_edges ?dot [c_us] ?a"
  let ?c = "replace_runs 1 is_space [c_us] ?b"
  have a: "?a \<noteq> []" using assms by (simp add: replace_runs_nonempty)
  have b: "?b \<noteq> []" using a by (simp add: replace_edges_nonempty)
  have bh: "\<not> ?dot (hd ?b)"
    using a replace_edges_hd [of ?a "[c_us]" ?dot] by (simp add: c_us_def c_dot_def)
  have c: "?c \<noteq> []" using b by (simp add: replace_runs_nonempty)
  have ch: "\<not> ?dot (hd ?c)"
    using b bh replace_runs_hd [of ?b ?dot "[c_us]" 1 is_space] by (simp add: c_us_def c_dot_def)
  have "\<not> ?dot (hd (replace_runs 2 (\<lambda>c. c = c_us) [c_us] ?c))"
    using c ch replace_runs_hd [of ?c ?dot "[c_us]" 2 "\<lambda>c. c = c_us"]
    by (simp add: c_us_def c_dot_def)
  then show ?thesis by (simp add: replace_chain_def)
qed

lemma extension_of_shape:
  assumes "extension_of s \<noteq> []"
  shows "last (extension_of s) \<noteq> c_dot \<and> 2 \<le> length (extension_of s)"
proof -
  let ?tl = "rev (takeWhile (\<lambda>c. c \<noteq> c_dot) (rev s))"
  from assms have ne: "?tl \<noteq> []" and e: "extension_of s = c_dot # ?tl"
    by (auto simp: extension_of_def Let_def split: if_splits)
  have "last ?tl \<in> set ?tl" using ne by (rule last_in_set)
  then have "last ?tl \<noteq> c_dot" by (auto dest: set_takeWhileD)
  with ne e show ?thesis by (cases ?tl) auto
qed

text \<open>The length cap never produces the empty name, \<^verbatim>\<open>.\<close> or \<^verbatim>\<open>..\<close>.\<close>

lemma limit_length_proper:
  assumes "p \<noteq> []" "hd p \<noteq> c_dot"
  shows "limit_length p \<noteq> [] \<and> limit_length p \<noteq> [c_dot] \<and> limit_length p \<noteq> [c_dot, c_dot]"
proof (cases "length p > 180")
  case False
  with assms show ?thesis by (cases p) (auto simp: limit_length_def)
next
  case True
  show ?thesis
  proof (cases "extension_of p = []")
    case True
    with \<open>length p > 180\<close> have "limit_length p = take 180 p"
      by (simp add: limit_length_def substring0_def)
    moreover have "take 180 p \<noteq> []" "hd (take 180 p) = hd p" using assms by (cases p; simp)+
    ultimately show ?thesis using assms(2) by (cases "take 180 p") auto
  next
    case False
    define e where "e = extension_of p"
    from False have e: "last e \<noteq> c_dot" "2 \<le> length e" "e \<noteq> []"
      using extension_of_shape [of p] by (auto simp: e_def)
    from False \<open>length p > 180\<close> obtain x where x: "limit_length p = x @ e"
      by (simp add: limit_length_def Let_def e_def)
    then have "last (limit_length p) \<noteq> c_dot" "limit_length p \<noteq> []" using e by auto
    then show ?thesis by auto
  qed
qed

lemma sanitized_proper:
  assumes "filename \<noteq> []"
  shows "limit_length (replace_chain filename) \<noteq> [] \<and>
         limit_length (replace_chain filename) \<noteq> [c_dot] \<and>
         limit_length (replace_chain filename) \<noteq> [c_dot, c_dot]"
  using assms by (simp add: limit_length_proper replace_chain_nonempty replace_chain_hd)

text \<open>
  Claim C8, as the code has it. For every non-empty name the result of the sanitizer does
  not depend on the clock: two calls at different times return the same string. (The branch
  returning \<^verbatim>\<open>downloaded_file_\<close> and the time is never taken; the empty name is the one
  input whose result carries the time.)
\<close>

theorem sanitize_clock_free:
  assumes "filename \<noteq> []"
  shows "sanitizeFilename t1 filename = sanitizeFilename t2 filename"
  using sanitized_proper [OF assms] assms by (simp add: sanitizeFilename_def Let_def)

theorem sanitize_clock_free_witness:
  "js ''My Trip!'' \<noteq> [] \<and>
   sanitizeFilename 1 (js ''My Trip!'') = sanitizeFilename 2 (js ''My Trip!'')"
proof -
  have h: "js ''My Trip!'' \<noteq> []" by (simp add: js_def)
  from sanitize_clock_free [OF h, of 1 2] h show ?thesis by simp
qed

text \<open>
  Claim C8, as stated, fails on the empty name: the fallback \<^verbatim>\<open>default_filename_\<close>
  carries the time of the call, so two calls on the same input differ.
\<close>

theorem sanitize_empty_uses_clock: "sanitizeFilename 1 [] \<noteq> sanitizeFilename 2 []"
  by (simp add: sanitizeFilename_def js_def dec_small)

section \<open>The sanitizer applied twice\<close>

lemma replace_runs_skip:
  "\<forall>x\<in>set xs. \<not> P x \<Longrightarrow> replace_runs k P r (xs @ ys) = xs @ replace_runs k P r ys"
  by (induction xs) auto

lemmas chain_eval = js_def c_us_def c_dot_def is_space_def replace_trailing_def replace_edges_def
  invalid_char_def replace_chain_def replace_runs_skip takeWhile_append

lemma chain_long_name: "replace_chain long_name = long_name"
  by (simp add: long_name_def chain_eval)

lemma limit_long_name: "limit_length long_name = replicate 175 97 @ js ''..jpg''"
  by (simp add: long_name_def limit_length_def extension_of_def substring0_def js_def c_dot_def)

lemma chain_capped: "replace_chain (replicate 175 97 @ js ''..jpg'') = replicate 175 97 @ js ''.jpg''"
  by (simp add: chain_eval)

lemma limit_capped: "limit_length (replicate 175 97 @ js ''.jpg'') = replicate 175 97 @ js ''.jpg''"
  by (simp add: limit_length_def js_def)

lemma base_capped:
  "takeWhile (\<lambda>c. c \<noteq> c_dot) (replicate 175 97 @ js ''.jpg'') = replicate 175 97"
  "takeWhile (\<lambda>c. c \<noteq> c_dot) (replicate 175 97 @ js ''..jpg'') = replicate 175 97"
  by (simp_all add: takeWhile_append c_dot_def js_def)

lemma reservedNames_length: "reservedNames s \<Longrightarrow> length s \<le> 4"
proof -
  assume "reservedNames s"
  then have "length (map to_upper s) = 3 \<or> length (map to_upper s) = 4"
    unfolding reservedNames_def Let_def js_def by (elim disjE conjE) auto
  then show ?thesis by auto
qed

lemma not_reserved_capped: "\<not> reservedNames (replicate 175 97)"
  using reservedNames_length [of "replicate 175 97"] by auto

lemma capped_proper:
  "long_name \<noteq> []" "replicate 175 97 @ js ''..jpg'' \<noteq> []"
  "replicate 175 97 @ js ''..jpg'' \<noteq> [c_dot]" "replicate 175 97 @ js ''..jpg'' \<noteq> [c_dot, c_dot]"
  "replicate 175 97 @ js ''.jpg'' \<noteq> [c_dot]" "replicate 175 97 @ js ''.jpg'' \<noteq> [c_dot, c_dot]"
  by (simp_all add: long_name_def js_def c_dot_def replicate_append_same [symmetric]
      del: replicate_append_same)

lemma first_call: "sanitizeFilename t long_name = replicate 175 97 @ js ''..jpg''"
  by (simp add: sanitizeFilename_def chain_long_name limit_long_name base_capped
      not_reserved_capped capped_proper Let_def)

lemma second_call:
  "sanitizeFilename t (replicate 175 97 @ js ''..jpg'') = replicate 175 97 @ js ''.jpg''"
  by (simp add: sanitizeFilename_def chain_capped limit_capped base_capped
      not_reserved_capped capped_proper Let_def)

text \<open>
  Claim C7 fails on the code at \<open>long_name\<close>. The first call cuts the name to 180
  characters after the dots have been collapsed, which leaves
  \<^verbatim>\<open>a...a..jpg\<close> with two consecutive dots; a second call collapses them, so
  \<open>sanitize (sanitize x)\<close> and \<open>sanitize x\<close> differ.
\<close>

theorem sanitize_twice_differs:
  "sanitizeFilename 0 (sanitizeFilename 0 long_name) \<noteq> sanitizeFilename 0 long_name"
  by (simp add: first_call second_call) (simp add: js_def)

section \<open>What the template renderer returns\<close>

lemma replace_token_absent:
  "\<not> occurs_in (placeholder token) s \<Longrightarrow> replace_token token v pre s = s"
  by (induction s arbitrary: pre) auto

lemma apply_tokens_absent:
  "list_all (\<lambda>(token, v). \<not> occurs_in (placeholder token) rule) data \<Longrightarrow>
   apply_tokens data rule = rule"
  by (induction data) (auto simp: replace_token_absent)

lemma replace_trailing_rev: "replace_trailing P [] s = rev (dropWhile P (rev s))"
proof -
  have "rev s = takeWhile P (rev s) @ dropWhile P (rev s)" by simp
  then have "s = rev (dropWhile P (rev s)) @ rev (takeWhile P (rev s))"
    by (metis rev_append rev_rev_ident)
  then have "take (length s - length (takeWhile P (rev s))) s = rev (dropWhile P (rev s))"
    by (metis append_eq_conv_conj length_rev length_append add_diff_cancel_right')
  moreover have "takeWhile P (rev s) = [] \<Longrightarrow> rev (dropWhile P (rev s)) = s"
    by (metis takeWhile_dropWhile_id append_Nil rev_rev_ident)
  ultimately show ?thesis by (simp add: replace_trailing_def Let_def)
qed

lemma replace_edges_strip_eq:
  "replace_edges P [] s = rev (dropWhile P (rev (dropWhile P s)))"
  by (cases s) (auto simp: replace_edges_def replace_trailing_rev)

lemma strip_ends:
  assumes "replace_edges P [] s \<noteq> []"
  shows "\<not> P (hd (replace_edges P [] s)) \<and> \<not> P (last (replace_edges P [] s))"
proof -
  let ?t = "dropWhile P s"
  let ?u = "dropWhile P (rev ?t)"
  from assms have u: "?u \<noteq> []" by (simp add: replace_edges_strip_eq)
  have t: "?t \<noteq> []"
  proof
    assume "?t = []"
    then have "?u = []" by (simp only: rev.simps dropWhile.simps)
    with u show False by (simp only: not_True_eq_False simp_thms)
  qed
  have l: "\<not> P (hd ?u)" using u by (rule hd_dropWhile)
  have ht: "\<not> P (hd ?t)" using t by (rule hd_dropWhile)
  have "last (rev ?t) = hd ?t" using t by (simp add: last_rev)
  moreover have "last ?u = last (rev ?t)"
    using u by (metis takeWhile_dropWhile_id last_appendR)
  ultimately have "\<not> P (last ?u)" using ht by simp
  with l u show ?thesis by (simp add: replace_edges_strip_eq hd_rev last_rev)
qed

lemma in_dropWhile: "c \<in> set t \<Longrightarrow> \<not> P c \<Longrightarrow> c \<in> set (dropWhile P t)"
  by (induction t) auto

lemma replace_runs_keeps:
  "c \<in> set s \<Longrightarrow> \<not> P c \<Longrightarrow> c \<in> set (replace_runs k P r s)"
proof (induction k P r s rule: replace_runs.induct)
  case (1 k P r)
  then show ?case by simp
next
  case (2 k P r x xs)
  show ?case
  proof (cases "P x")
    case True
    with 2(3,4) have "c \<in> set xs" by auto
    with 2(4) have "c \<in> set (dropWhile P xs)" by (simp add: in_dropWhile)
    with 2(1) [OF True] 2(4) True show ?thesis by simp
  next
    case False
    with 2 show ?thesis by auto
  qed
qed

lemma replace_runs_all:
  "list_all Q s \<Longrightarrow> list_all Q r \<Longrightarrow> list_all Q (replace_runs k P r s)"
proof (induction k P r s rule: replace_runs.induct)
  case (1 k P r)
  then show ?case by simp
next
  case (2 k P r x xs)
  from 2(3) have q: "list_all Q (dropWhile P xs)" "list_all Q (takeWhile P xs)"
    by (auto simp: list_all_iff dest: set_dropWhileD set_takeWhileD)
  with 2 show ?case by (auto simp: list_all_iff)
qed

lemma strip_keeps: "c \<in> set s \<Longrightarrow> \<not> P c \<Longrightarrow> c \<in> set (replace_edges P [] s)"
proof -
  assume c: "c \<in> set s" "\<not> P c"
  have a: "c \<in> set (dropWhile P t)" if "c \<in> set t" for t
    using that c(2) by (rule in_dropWhile)
  from c a [of s] a [of "rev (dropWhile P s)"] show ?thesis
    by (simp add: replace_edges_strip_eq)
qed

lemma strip_all: "list_all P s \<Longrightarrow> replace_edges P [] s = []"
  by (auto simp: replace_edges_strip_eq list_all_iff dest: set_dropWhileD)

text \<open>
  The clean-up leaves nothing exactly when the template, with its placeholders removed and
  trimmed, is made of separators alone (or is empty).
\<close>

lemma tidy_empty_iff: "tidy s = [] \<longleftrightarrow> list_all is_sep (trim (remove_placeholders s))"
proof
  let ?x = "trim (remove_placeholders s)"
  let ?y = "replace_runs 2 is_sep [c_us]
              (replace_runs 2 (\<lambda>c. c = c_hyphen) [c_hyphen]
                (replace_runs 2 (\<lambda>c. c = c_us) [c_us] ?x))"
  {
    assume "list_all is_sep ?x"
    then have "list_all is_sep ?y"
      by (intro replace_runs_all) (simp_all add: is_sep_def)
    then show "tidy s = []" by (simp add: tidy_def strip_all)
  }
  {
    assume e: "tidy s = []"
    show "list_all is_sep ?x"
    proof (rule ccontr)
      assume "\<not> list_all is_sep ?x"
      then obtain c where c: "c \<in> set ?x" "\<not> is_sep c" by (auto simp: list_all_iff)
      then have n: "c \<noteq> c_us" "c \<noteq> c_hyphen" by (auto simp: is_sep_def)
      from c(1) n(1) have "c \<in> set (replace_runs 2 (\<lambda>c. c = c_us) [c_us] ?x)"
        by (rule replace_runs_keeps)
      from this n(2) have "c \<in> set (replace_runs 2 (\<lambda>c. c = c_hyphen) [c_hyphen]
                (replace_runs 2 (\<lambda>c. c = c_us) [c_us] ?x))"
        by (rule replace_runs_keeps)
      from this c(2) have "c \<in> set ?y" by (rule replace_runs_keeps)
      from this c(2) have "c \<in> set (tidy s)" unfolding tidy_def by (rule strip_keeps)
      with e show False by simp
    qed
  }
qed

lemma tidy_ends: "tidy s \<noteq> [] \<Longrightarrow> \<not> is_sep (hd (tidy s)) \<and> \<not> is_sep (last (tidy s))"
  unfolding tidy_def by (rule strip_ends)

lemma dec_last: "dec n \<noteq> [] \<and> last (dec n) = 48 + n mod 10"
  by (cases "n < 10") (simp_all add: dec_small dec_big)

lemma fallback_ends:
  "\<not> is_sep (hd (js ''default_name_'' @ dec now)) \<and> \<not> is_sep (last (js ''default_name_'' @ dec now))"
proof -
  have "n mod 10 < 10" for n :: nat by simp
  then have "\<not> is_sep (48 + now mod 10)"
    by (simp add: is_sep_def c_us_def c_hyphen_def)
  then show ?thesis using dec_last [of now]
    by (simp add: js_def is_sep_def c_us_def c_hyphen_def)
qed

lemma tidy_photo: "tidy (js ''photo_{foo}'') = js ''photo''"
  by (simp add: name_eval)




section \<open>Basic facts about the callbacks\<close>

lemma notifyPopup_alt:
  "notifyPopup ev s = s\<lparr>events := events s @ (if currentTabId s \<noteq> 0 then [ev] else [])\<rparr>"
  by (simp add: notifyPopup_def)

lemma run_Nil [simp]: "run s [] = s"
  by (simp add: run_def)

lemma run_Cons [simp]: "run s (a # as) = run (step s a) as"
  by (simp add: run_def)

lemma run_append: "run s (as @ bs) = run (run s as) bs"
  by (simp add: run_def)

text \<open>The queue-drain routine raises whatever the state.\<close>

lemma startProcessingQueue_raises: "startProcessingQueue s = Inl undeclared"
  by (simp add: startProcessingQueue_def)

text \<open>
  What \<^verbatim>\<open>processPhotosDownload\<close> does once it has its options: with nothing left to
  download it reports completion; otherwise it builds the queue and ends with the
  exception of the queue-drain routine.
\<close>

lemma body_eq:
  "processPhotosDownload_body photos name tab opts d now s =
     (let todo = (if skipDownloaded opts
                  then filter (\<lambda>p. photo_id p \<notin> downloadedFileIds s) photos else photos)
      in if todo = []
         then (s\<lparr>totalPhotosForCurrentJob := length photos, processedPhotosForCurrentJob := 0,
                 events := events s @
                   (if currentTabId s \<noteq> 0
                    then [DownloadProgress 0 (length photos) name,
                          DownloadComplete name
                            (js ''All photos already downloaded or collection is empty.'')]
                    else [])\<rparr>, None)
         else (s\<lparr>totalPhotosForCurrentJob := length todo, processedPhotosForCurrentJob := 0,
                 events := events s @
                   (if currentTabId s \<noteq> 0
                    then [DownloadProgress 0 (length photos) name,
                          DownloadProgress 0 (length todo) name]
                    else []),
                 downloadQueue :=
                   map (\<lambda>(index, p). queue_item now opts name tab d
                          (baseFolderName now opts name d) index p) (enumerate 0 todo)\<rparr>,
               Some undeclared))"
  by (simp add: processPhotosDownload_body_def startProcessingQueue_raises notifyPopup_alt Let_def)

lemmas engine_defs = notifyPopup_alt body_eq processPhotosDownload_def optionsRead_def
  albumOptionsRead_def albumInfoArrives_def undeclared_def Let_def

text \<open>No callback dispatches a download or counts one as processed.\<close>

lemma idle_step:
  "activeDownloads (step s a) = activeDownloads s \<and>
   (processedPhotosForCurrentJob s = 0 \<longrightarrow> processedPhotosForCurrentJob (step s a) = 0)"
proof (cases a)
  case (Message req now)
  then show ?thesis by (cases req) (auto simp: engine_defs)
next
  case (OptionsRead k d now)
  then show ?thesis by (auto simp: engine_defs split: prod.splits)
next
  case (AlbumOptionsRead k)
  then show ?thesis by (auto simp: engine_defs split: prod.splits)
next
  case (AlbumInfoArrives k res d now)
  then show ?thesis by (cases res) (auto simp: engine_defs split: prod.splits)
next
  case (SaveOptions opts)
  then show ?thesis by simp
qed

lemma engine_idle:
  "activeDownloads (run (init ids opts) as) = 0 \<and>
   processedPhotosForCurrentJob (run (init ids opts) as) = 0"
proof -
  have "activeDownloads (run s as) = 0 \<and> processedPhotosForCurrentJob (run s as) = 0"
    if "activeDownloads s = 0" "processedPhotosForCurrentJob s = 0" for s
    using that
  proof (induction as arbitrary: s)
    case Nil
    then show ?case by simp
  next
    case (Cons a as)
    from idle_step [of s a] Cons.prems show ?case by (simp add: Cons.IH)
  qed
  then show ?thesis by (simp add: init_def)
qed

lemma cancelled_stays:
  assumes "isCancelled s" "\<not> is_job_request a"
  shows "isCancelled (step s a)"
proof (cases a)
  case (Message req now)
  with assms show ?thesis by (cases req) (auto simp: engine_defs)
next
  case (OptionsRead k d now)
  with assms show ?thesis by (auto simp: engine_defs split: prod.splits)
next
  case (AlbumOptionsRead k)
  with assms show ?thesis by (auto simp: engine_defs split: prod.splits)
next
  case (AlbumInfoArrives k res d now)
  with assms show ?thesis by (cases res) (auto simp: engine_defs split: prod.splits)
next
  case (SaveOptions opts)
  with assms show ?thesis by simp
qed

lemma cancelled_stays_run:
  assumes "isCancelled s" "list_all (\<lambda>b. \<not> is_job_request b) bs"
  shows "isCancelled (run s bs)"
  using assms
proof (induction bs arbitrary: s)
  case Nil
  then show ?case by simp
next
  case (Cons b bs)
  from Cons.prems have "isCancelled (step s b)" by (auto intro: cancelled_stays)
  with Cons show ?case by simp
qed

section \<open>The counters of a job\<close>


section \<open>A second run of a job\<close>


section \<open>Cancellation\<close>

text \<open>
  Once the job is cancelled and no call of \<^verbatim>\<open>processPhotosDownload\<close> is waiting for its
  options, a callback or a write of the options page sends nothing to the popup.
\<close>

lemma cancelled_quiet_step:
  assumes "isCancelled s" "awaitingOptions s = []" "\<not> is_Message a"
  shows "events (step s a) = events s \<and> isCancelled (step s a) \<and>
         awaitingOptions (step s a) = [] \<and>
         currentCollectionName (step s a) = currentCollectionName s"
proof (cases a)
  case (Message req now)
  with assms show ?thesis by simp
next
  case (OptionsRead k d now)
  with assms show ?thesis by (simp add: optionsRead_def)
next
  case (AlbumOptionsRead k)
  with assms show ?thesis by (auto simp: engine_defs split: prod.splits)
next
  case (AlbumInfoArrives k res d now)
  with assms show ?thesis by (cases res) (auto simp: engine_defs split: prod.splits)
next
  case (SaveOptions opts)
  with assms show ?thesis by simp
qed

lemma cancelled_quiet_run:
  assumes "isCancelled s" "awaitingOptions s = []" "list_all (\<lambda>a. \<not> is_Message a) as"
  shows "events (run s as) = events s \<and>
         currentCollectionName (run s as) = currentCollectionName s"
  using assms
proof (induction as arbitrary: s)
  case Nil
  then show ?case by simp
next
  case (Cons a as)
  from Cons.prems have n: "\<not> is_Message a" "list_all (\<lambda>a. \<not> is_Message a) as" by simp_all
  from cancelled_quiet_step [OF Cons.prems(1,2) n(1)] Cons.IH [of "step s a"] n(2)
  show ?case by simp
qed


section \<open>The terminal events of a job\<close>

lemma remove_nth_length:
  "k < length xs \<Longrightarrow> length (take k xs @ drop (Suc k) xs) = length xs - 1"
  by auto

text \<open>
  While a job is not cancelled, a callback adds a terminal event exactly when it resumes
  the last suspended call of the job.
\<close>

lemma job_step:
  assumes "pending s \<le> 1" "currentTabId s \<noteq> 0" "\<not> isCancelled s" "\<not> is_Message a"
  shows "pending (step s a) \<le> pending s \<and> currentTabId (step s a) \<noteq> 0 \<and>
         \<not> isCancelled (step s a) \<and>
         length (filter is_terminal (events (step s a))) =
           length (filter is_terminal (events s)) +
           (if pending s = 1 \<and> pending (step s a) = 0 then 1 else 0)"
proof (cases a)
  case (Message req now)
  with assms show ?thesis by simp
next
  case (OptionsRead k d now)
  show ?thesis
  proof (cases "k < length (awaitingOptions s)")
    case False
    with assms OptionsRead show ?thesis by (simp add: optionsRead_def)
  next
    case True
    from assms(1) have "length (awaitingOptions s) + length (albumAwaitingOptions s) +
        length (albumAwaitingInfo s) \<le> 1"
      by (simp add: pending_def)
    with True have "length (albumAwaitingOptions s) = 0 \<and> length (albumAwaitingInfo s) = 0 \<and>
      length (awaitingOptions s) = 1 \<and> k = 0"
      by arith
    then have p: "albumAwaitingOptions s = []" "albumAwaitingInfo s = []"
      "length (awaitingOptions s) = 1" "k = 0"
      by auto
    with assms OptionsRead show ?thesis
      by (auto simp: engine_defs pending_def split: prod.splits)
  qed
next
  case (AlbumOptionsRead k)
  show ?thesis
  proof (cases "k < length (albumAwaitingOptions s)")
    case False
    with assms AlbumOptionsRead show ?thesis by (simp add: albumOptionsRead_def)
  next
    case True
    from assms(1) have "length (awaitingOptions s) + length (albumAwaitingOptions s) +
        length (albumAwaitingInfo s) \<le> 1"
      by (simp add: pending_def)
    with True have "length (albumAwaitingOptions s) = 1 \<and> length (albumAwaitingInfo s) = 0 \<and>
      length (awaitingOptions s) = 0 \<and> k = 0"
      by arith
    then have p: "length (albumAwaitingOptions s) = 1" "albumAwaitingInfo s = []"
      "awaitingOptions s = []" "k = 0"
      by auto
    with assms AlbumOptionsRead show ?thesis
      by (auto simp: engine_defs pending_def split: prod.splits)
  qed
next
  case (AlbumInfoArrives k res d now)
  show ?thesis
  proof (cases "k < length (albumAwaitingInfo s)")
    case False
    with assms AlbumInfoArrives show ?thesis by (simp add: albumInfoArrives_def)
  next
    case True
    from assms(1) have "length (awaitingOptions s) + length (albumAwaitingOptions s) +
        length (albumAwaitingInfo s) \<le> 1"
      by (simp add: pending_def)
    with True have "length (albumAwaitingOptions s) = 0 \<and> length (albumAwaitingInfo s) = 1 \<and>
      length (awaitingOptions s) = 0 \<and> k = 0"
      by arith
    then have p: "albumAwaitingOptions s = []" "length (albumAwaitingInfo s) = 1"
      "awaitingOptions s = []" "k = 0"
      by auto
    with assms AlbumInfoArrives show ?thesis
      by (cases res) (auto simp: engine_defs pending_def split: prod.splits)
  qed
next
  case (SaveOptions opts)
  have "pending (s\<lparr>storedOptions := opts\<rparr>) = pending s" by (simp add: pending_def)
  with assms SaveOptions show ?thesis by simp
qed

lemma job_run:
  assumes "pending s \<le> 1" "currentTabId s \<noteq> 0" "\<not> isCancelled s"
    "list_all (\<lambda>a. \<not> is_Message a) as"
  shows "pending (run s as) \<le> pending s \<and> currentTabId (run s as) \<noteq> 0 \<and>
         \<not> isCancelled (run s as) \<and>
         length (filter is_terminal (events (run s as))) =
           length (filter is_terminal (events s)) +
           (if pending s = 1 \<and> pending (run s as) = 0 then 1 else 0)"
  using assms
proof (induction as arbitrary: s)
  case Nil
  then show ?case by simp
next
  case (Cons a as)
  from Cons.prems have n: "\<not> is_Message a" "list_all (\<lambda>a. \<not> is_Message a) as" by simp_all
  note st = job_step [OF Cons.prems(1,2,3) n(1)]
  from st Cons.prems(1) have p: "pending (step s a) \<le> 1" by simp
  from st have t: "currentTabId (step s a) \<noteq> 0" and c: "\<not> isCancelled (step s a)" by simp_all
  note ih = Cons.IH [OF p t c n(2)]
  from st ih Cons.prems(1) show ?case by (auto split: if_splits)
qed

text \<open>An album job sends nothing to the popup while one of its calls is suspended.\<close>

lemma album_wait_step:
  assumes "awaitingOptions s = []" "pending s \<le> 1" "pending s = 1 \<longrightarrow> events s = []"
    "\<not> is_Message a"
  shows "awaitingOptions (step s a) = [] \<and> pending (step s a) \<le> 1 \<and>
         (pending (step s a) = 1 \<longrightarrow> events (step s a) = [])"
proof (cases a)
  case (Message req now)
  with assms show ?thesis by simp
next
  case (OptionsRead k d now)
  with assms show ?thesis by (simp add: optionsRead_def)
next
  case (AlbumOptionsRead k)
  show ?thesis
  proof (cases "k < length (albumAwaitingOptions s)")
    case False
    with assms AlbumOptionsRead show ?thesis by (simp add: albumOptionsRead_def)
  next
    case True
    from assms(1,2) have "length (albumAwaitingOptions s) + length (albumAwaitingInfo s) \<le> 1"
      by (simp add: pending_def)
    with True have "length (albumAwaitingOptions s) = 1 \<and> length (albumAwaitingInfo s) = 0 \<and> k = 0"
      by arith
    then have p: "length (albumAwaitingOptions s) = 1" "albumAwaitingInfo s = []" "k = 0"
      by auto
    with assms(1) have "pending s = 1" by (simp add: pending_def)
    with assms(3) have "events s = []" by simp
    with p assms(1) AlbumOptionsRead True show ?thesis
      by (auto simp: engine_defs pending_def split: prod.splits)
  qed
next
  case (AlbumInfoArrives k res d now)
  show ?thesis
  proof (cases "k < length (albumAwaitingInfo s)")
    case False
    with assms AlbumInfoArrives show ?thesis by (simp add: albumInfoArrives_def)
  next
    case True
    from assms(1,2) have "length (albumAwaitingOptions s) + length (albumAwaitingInfo s) \<le> 1"
      by (simp add: pending_def)
    with True have "length (albumAwaitingOptions s) = 0 \<and> length (albumAwaitingInfo s) = 1 \<and> k = 0"
      by arith
    then have p: "albumAwaitingOptions s = []" "length (albumAwaitingInfo s) = 1" "k = 0"
      by auto
    with assms AlbumInfoArrives True show ?thesis
      by (cases res) (auto simp: engine_defs pending_def split: prod.splits)
  qed
next
  case (SaveOptions opts)
  have "pending (s\<lparr>storedOptions := opts\<rparr>) = pending s" by (simp add: pending_def)
  with assms SaveOptions show ?thesis by simp
qed

lemma album_wait_run:
  assumes "awaitingOptions s = []" "pending s \<le> 1" "pending s = 1 \<longrightarrow> events s = []"
    "list_all (\<lambda>a. \<not> is_Message a) as"
  shows "awaitingOptions (run s as) = [] \<and> (pending (run s as) = 1 \<longrightarrow> events (run s as) = [])"
  using assms
proof (induction as arbitrary: s)
  case Nil
  then show ?case by simp
next
  case (Cons a as)
  from Cons.prems have n: "\<not> is_Message a" "list_all (\<lambda>a. \<not> is_Message a) as" by simp_all
  from album_wait_step [OF Cons.prems(1,2,3) n(1)] Cons.IH [of "step s a"] n(2)
  show ?case by simp
qed

lemma first_message:
  assumes "tab_of req \<noteq> 0"
  shows "pending (step (init ids opts) (Message req now)) = 1 \<and>
         currentTabId (step (init ids opts) (Message req now)) \<noteq> 0 \<and>
         \<not> isCancelled (step (init ids opts) (Message req now)) \<and>
         events (step (init ids opts) (Message req now)) = [] \<and>
         (is_album req \<longrightarrow> awaitingOptions (step (init ids opts) (Message req now)) = [])"
  using assms by (cases req) (simp_all add: init_def pending_def processPhotosDownload_def)


section \<open>The options of a job\<close>

lemma step_keeps_storedOptions:
  assumes "\<not> is_SaveOptions a"
  shows "storedOptions (step s a) = storedOptions s"
proof (cases a)
  case (Message req now)
  then show ?thesis by (cases req) (auto simp: engine_defs)
next
  case (OptionsRead k d now)
  then show ?thesis by (auto simp: engine_defs split: prod.splits)
next
  case (AlbumOptionsRead k)
  then show ?thesis by (auto simp: engine_defs split: prod.splits)
next
  case (AlbumInfoArrives k res d now)
  then show ?thesis by (cases res) (auto simp: engine_defs split: prod.splits)
next
  case (SaveOptions opts)
  with assms show ?thesis by simp
qed

text \<open>A callback that reads no snapshot does not look at the stored options.\<close>

lemma step_storedOptions:
  assumes "\<not> reads_snapshot a" "\<not> is_SaveOptions a"
  shows "step (s\<lparr>storedOptions := o'\<rparr>) a = (step s a)\<lparr>storedOptions := o'\<rparr>"
proof (cases a)
  case (Message req now)
  then show ?thesis by (cases req) (simp_all add: engine_defs)
next
  case (OptionsRead k d now)
  with assms show ?thesis by simp
next
  case (AlbumOptionsRead k)
  with assms show ?thesis by simp
next
  case (AlbumInfoArrives k res d now)
  then show ?thesis by (cases res) (simp_all add: engine_defs split: prod.splits)
next
  case (SaveOptions opts)
  with assms show ?thesis by simp
qed

lemma run_storedOptions:
  assumes "list_all (\<lambda>a. \<not> reads_snapshot a) as"
  shows "(run (s\<lparr>storedOptions := o'\<rparr>) as)\<lparr>storedOptions := storedOptions s\<rparr> =
         run s (filter (\<lambda>a. \<not> is_SaveOptions a) as)"
  using assms
proof (induction as arbitrary: s o')
  case Nil
  show ?case by simp
next
  case (Cons a as)
  from Cons.prems have r: "\<not> reads_snapshot a" "list_all (\<lambda>a. \<not> reads_snapshot a) as"
    by simp_all
  show ?case
  proof (cases "is_SaveOptions a")
    case True
    then obtain o'' where a: "a = SaveOptions o''" by (cases a) auto
    with Cons.IH [OF r(2), of s o''] show ?thesis by simp
  next
    case False
    have e: "step (s\<lparr>storedOptions := o'\<rparr>) a = (step s a)\<lparr>storedOptions := o'\<rparr>"
      using r(1) False by (rule step_storedOptions)
    have st: "storedOptions (step s a) = storedOptions s"
      using False by (rule step_keeps_storedOptions)
    from Cons.IH [OF r(2), of "step s a" o'] st False e show ?thesis by simp
  qed
qed


section \<open>Scenarios of the engine\<close>

lemmas scenario_defs = fresh_def fresh_with_a_def init_def defaultOptions_def post_job_def
  post_job_cancelled_def single_job_cancelled_def album_job_started_def photo_a_def photo_b_def
  photo_c_def or_else_def







text \<open>
  Claim C5 fails on the code for want of the declaration of \<^verbatim>\<open>isDownloading\<close>. A job
  for three photos, none of them in the ledger, is requested of a fresh worker from tab 7,
  and its options arrive. The job reports its total twice and then ends with the
  top-level error of the queue-drain routine: the three items stay in the queue, none is
  dispatched, and the processed count stays 0. So no item can fail by itself, and
  whatever its fetch would have answered, no sibling is dispatched or settled.
\<close>

theorem job_stops_before_dispatch:
  "events (run fresh (post_job [photo_a, photo_b, photo_c])) =
     [DownloadProgress 0 3 (js ''post_42''),
      DownloadProgress 0 3 (js ''post_42''),
      DownloadError (js ''isDownloading is not defined'')] \<and>
   map item_id (downloadQueue (run fresh (post_job [photo_a, photo_b, photo_c]))) =
     [Some (js ''101''), Some (js ''102''), Some (js ''103'')] \<and>
   activeDownloads (run fresh (post_job [photo_a, photo_b, photo_c])) = 0 \<and>
   processedPhotosForCurrentJob (run fresh (post_job [photo_a, photo_b, photo_c])) = 0 \<and>
   totalPhotosForCurrentJob (run fresh (post_job [photo_a, photo_b, photo_c])) = 3"
  by (simp add: scenario_defs engine_defs js_def enumerate_eq_zip queue_item_def)


end
